theory Spec2Isabelle
  imports Main "HOL-Library.Word" "HOL-Library.Signed_Division"
begin

section \<open>The process environment shared by both translation units\<close>

text \<open>
  Heap addresses and function pointers are natural numbers; \<open>0\<close> is \<open>NULL\<close>.
  C \<open>int\<close> values are HOL integers: every \<open>int\<close> the code computes is a table
  index or a table size, bounded by the size of the table, so no \<open>int\<close> operation of
  the code can leave the range of the type. \<open>unsigned long\<close> is a 64-bit word
  (LP64, the data model of the platforms that offer \<open>ucontext.h\<close>), with the
  wrap-around of C's unsigned arithmetic.
\<close>

type_synonym addr = nat
type_synonym funptr = nat
type_synonym ulong = "64 word"

text \<open>The signal numbers of \<open>signal.h\<close> (Linux).\<close>

definition SIGINT :: int where "SIGINT = 2"
definition SIGALRM :: int where "SIGALRM = 14"
definition SIGVTALRM :: int where "SIGVTALRM = 26"

text \<open>
  A \<open>ucontext_t\<close> the code passes to \<open>swapcontext\<close> is either the static
  \<open>uc_out\<close> or the \<open>uc\<close> member of a table slot.
\<close>

datatype ctx_ref = UcOut | SlotUc int

text \<open>
  The calls the program makes into the operating system and the C library are recorded,
  in order, in a trace.
\<close>

datatype event =
    EvAlarm nat
  | EvRaise int
  | EvSwap ctx_ref ctx_ref
  | EvFree addr
  | EvPerror
  | EvCall funptr int

text \<open>
  The saved machine state of a context: just captured by \<open>getcontext\<close>, set by
  \<open>makecontext\<close> to enter a function with one argument, or saved by
  \<open>swapcontext\<close> when the thread was switched out.
\<close>

datatype mctx = Captured | Entry funptr int | Suspended

text \<open>
  \<open>ut_slot_t\<close>, with \<open>uc.uc_stack.ss_sp\<close> and \<open>uc.uc_stack.ss_size\<close>
  flattened. \<open>malloc\<close> returns storage that has never been written: a member is
  \<open>None\<close> until the code assigns it, and reading such a member is a fault.
\<close>

record ut_slot_t =
  uc_mcontext :: "mctx option"
  uc_link :: "ctx_ref option"
  ss_sp :: "addr option"
  ss_size :: "nat option"
  vtime :: "ulong option"
  func :: "funptr option"
  arg :: "int option"

definition uninit_slot :: ut_slot_t where
  "uninit_slot = \<lparr>uc_mcontext = None, uc_link = None, ss_sp = None, ss_size = None,
     vtime = None, func = None, arg = None\<rparr>"

text \<open>A live heap block is a thread stack of some size or the thread table.\<close>

datatype block = Stack nat | Table "ut_slot_t list"

record proc =
  heap :: "addr \<Rightarrow> block option"
  alarm_pending :: nat
  trace :: "event list"

text \<open>\<open>alarm(n)\<close> replaces the pending alarm; \<open>alarm(0)\<close> cancels it.\<close>

definition alarm :: "nat \<Rightarrow> 'a proc_scheme \<Rightarrow> 'a proc_scheme" where
  "alarm n p = p\<lparr>alarm_pending := n, trace := trace p @ [EvAlarm n]\<rparr>"

text \<open>
  \<open>raise(sig)\<close> delivers the signal to the calling thread before it returns. What
  the installed handler then does, and the value \<open>raise\<close> returns, belong to the
  environment: the returned value is an input of the caller's model.
\<close>

definition raise_sig :: "int \<Rightarrow> 'a proc_scheme \<Rightarrow> 'a proc_scheme" where
  "raise_sig sg p = p\<lparr>trace := trace p @ [EvRaise sg]\<rparr>"

definition perror :: "'a proc_scheme \<Rightarrow> 'a proc_scheme" where
  "perror p = p\<lparr>trace := trace p @ [EvPerror]\<rparr>"

text \<open>
  \<open>malloc\<close>: the environment chooses the address of the new block, \<open>0\<close> when the
  allocation fails.
\<close>

definition malloc :: "addr \<Rightarrow> block \<Rightarrow> 'a proc_scheme \<Rightarrow> 'a proc_scheme" where
  "malloc p b s = (if p = 0 then s else s\<lparr>heap := (heap s)(p \<mapsto> b)\<rparr>)"

section \<open>binsem.c\<close>

text \<open>
  Modelled from the spec: the type \<open>sem_t\<close> and the primitive \<open>xchg\<close> are declared
  in \<open>binsem.h\<close>, which is not among the sources. The semaphore is a single-word
  shared state, and \<open>xchg\<close> atomically reads the current value and stores the new
  one in one indivisible step: it yields the value read and the new content of the word.
\<close>

type_synonym sem_t = ulong

definition xchg :: "sem_t \<Rightarrow> sem_t \<Rightarrow> sem_t \<times> sem_t" where
  "xchg s v = (s, v)"

definition binsem_init :: "sem_t \<Rightarrow> int \<Rightarrow> sem_t" where
  "binsem_init s init_val = (if init_val > 0 then 1 else 0)"

definition binsem_up :: "sem_t \<Rightarrow> sem_t" where
  "binsem_up s = snd (xchg s 1)"

text \<open>
  \<open>binsem_down rr s p\<close>: \<open>rr\<close> is what \<open>raise\<close> returns if it is called. The
  result is the returned \<open>int\<close>, the semaphore word as the exchange left it, and the
  process environment.
\<close>

definition binsem_down :: "int \<Rightarrow> sem_t \<Rightarrow> 'a proc_scheme \<Rightarrow> int \<times> sem_t \<times> 'a proc_scheme" where
  "binsem_down rr s p =
     (if fst (xchg s 0) = 0
      then (rr, snd (xchg s 0), raise_sig SIGALRM (alarm 0 p))
      else (0, snd (xchg s 0), p))"

section \<open>ut.c\<close>

text \<open>
  The constants of \<open>ut.h\<close>, which is not among the sources, are parameters of the
  model. \<open>tid_t\<close>, declared there too, is an integer type wide enough for a table
  index.
\<close>

record ut_consts =
  MAX_TAB_SIZE :: int
  MIN_TAB_SIZE :: int
  SYS_ERR :: int
  TAB_FULL :: int
  STACKSIZE :: nat

text \<open>
  Modelled from the spec: what the spec says about the constants of \<open>ut.h\<close>. The
  table size is clamped into \<open>[MIN_TAB_SIZE, MAX_TAB_SIZE]\<close>, a table holds at least
  one thread, non-negative results are thread identifiers or the success code, and two
  different negative sentinels tell "table full" from "system error".
\<close>

definition ut_consts_ok :: "ut_consts \<Rightarrow> bool" where
  "ut_consts_ok k =
     (0 < MIN_TAB_SIZE k \<and> MIN_TAB_SIZE k \<le> MAX_TAB_SIZE k
      \<and> SYS_ERR k < 0 \<and> TAB_FULL k < 0 \<and> SYS_ERR k \<noteq> TAB_FULL k)"

text \<open>A sample \<open>ut.h\<close>, for evaluating the code at concrete inputs.\<close>

definition ut_h :: ut_consts where
  "ut_h = \<lparr>MAX_TAB_SIZE = 128, MIN_TAB_SIZE = 2, SYS_ERR = - 1, TAB_FULL = - 2,
     STACKSIZE = 8192\<rparr>"

definition QUANTUM :: nat where "QUANTUM = 1"
definition INTERVAL_MICRO :: ulong where "INTERVAL_MICRO = 100"

text \<open>
  The static variables of \<open>ut.c\<close>, on top of the process environment. The static
  \<open>vtime\<close> is \<open>g_vtime\<close> here (the slot member keeps the name \<open>vtime\<close>), and
  \<open>old_sigaction\<close> is the \<open>sa_handler\<close> member, the only one the code reads.
\<close>

record ut_state = proc +
  threads_table :: addr
  threads_table_size :: int
  next_position :: int
  curr_thread :: int
  g_vtime :: ulong
  old_sigaction :: funptr

text \<open>The state at program start: statics are zero, nothing is allocated.\<close>

definition initial_state :: ut_state where
  "initial_state = \<lparr>heap = Map.empty, alarm_pending = 0, trace = [],
     threads_table = 0, threads_table_size = 0, next_position = 0, curr_thread = 0,
     g_vtime = 0, old_sigaction = 0\<rparr>"

text \<open>
  A call either returns a value, or it ends in a fault: the process has exited, or the
  code has done something C leaves undefined. Both carry the state reached.
\<close>

datatype fault =
    ProcessExit
  | NullDeref
  | BadPointer addr
  | OutOfBounds int
  | UninitRead int
  | InvalidFree addr
  | DivByZero

type_synonym 'a res = "(fault \<times> ut_state) + ('a \<times> ut_state)"

definition res_state :: "'a res \<Rightarrow> ut_state" where
  "res_state r = (case r of Inl (f, s) \<Rightarrow> s | Inr (v, s) \<Rightarrow> s)"

definition returned :: "'a res \<Rightarrow> bool" where
  "returned r = (case r of Inl e \<Rightarrow> False | Inr x \<Rightarrow> True)"

subsection \<open>Access to the table through the pointer \<open>threads_table\<close>\<close>

definition table_slots :: "ut_state \<Rightarrow> fault + ut_slot_t list" where
  "table_slots s =
     (if threads_table s = 0 then Inl NullDeref
      else case heap s (threads_table s) of
             Some (Table sl) \<Rightarrow> Inr sl
           | Some (Stack n) \<Rightarrow> Inl (BadPointer (threads_table s))
           | None \<Rightarrow> Inl (BadPointer (threads_table s)))"

definition read_slot :: "int \<Rightarrow> ut_state \<Rightarrow> fault + ut_slot_t" where
  "read_slot i s =
     (case table_slots s of
        Inl f \<Rightarrow> Inl f
      | Inr sl \<Rightarrow>
          if 0 \<le> i \<and> i < int (length sl) then Inr (sl ! nat i) else Inl (OutOfBounds i))"

definition write_slot :: "int \<Rightarrow> ut_slot_t \<Rightarrow> ut_state \<Rightarrow> ut_state" where
  "write_slot i x s =
     (case table_slots s of
        Inl f \<Rightarrow> s
      | Inr sl \<Rightarrow> s\<lparr>heap := (heap s)(threads_table s \<mapsto> Table (sl[nat i := x]))\<rparr>)"

text \<open>
  \<open>free(p)\<close>: nothing for \<open>NULL\<close>, a fault for a pointer that is not a live block
  (never allocated, or already freed).
\<close>

definition free :: "addr \<Rightarrow> ut_state \<Rightarrow> fault + ut_state" where
  "free p s =
     (if p = 0 then Inr s
      else case heap s p of
             None \<Rightarrow> Inl (InvalidFree p)
           | Some b \<Rightarrow> Inr (s\<lparr>heap := (heap s)(p := None), trace := trace s @ [EvFree p]\<rparr>))"

lemma free_size: "free p s = Inr s' \<Longrightarrow> threads_table_size s' = threads_table_size s"
  by (auto simp: free_def split: if_splits option.splits)

subsection \<open>release_memory\<close>

text \<open>The loop \<open>for (i = 0; i < threads_table_size; i++) free(threads_table[i].uc.uc_stack.ss_sp)\<close>.\<close>

function release_loop :: "int \<Rightarrow> ut_state \<Rightarrow> (fault \<times> ut_state) + ut_state" where
  "release_loop i s =
     (if i < threads_table_size s then
        (case read_slot i s of
           Inl f \<Rightarrow> Inl (f, s)
         | Inr sl \<Rightarrow>
             (case ss_sp sl of
                None \<Rightarrow> Inl (UninitRead i, s)
              | Some p \<Rightarrow>
                  (case free p s of
                     Inl f \<Rightarrow> Inl (f, s)
                   | Inr s' \<Rightarrow> release_loop (i + 1) s')))
      else Inr s)"
  by pat_completeness auto
termination
  by (relation "measure (\<lambda>(i, s). nat (threads_table_size s - i))")
     (auto dest: free_size)

declare release_loop.simps [simp del]

definition release_memory :: "ut_state \<Rightarrow> int res" where
  "release_memory s =
     (if threads_table s \<noteq> 0 then
        (case release_loop 0 s of
           Inl e \<Rightarrow> Inl e
         | Inr s1 \<Rightarrow>
             (case free (threads_table s1) s1 of
                Inl f \<Rightarrow> Inl (f, s1)
              | Inr s2 \<Rightarrow> Inr (0, s2)))
      else Inl (ProcessExit, perror s))"

subsection \<open>ut_init\<close>

text \<open>\<open>ut_init k tab_size p s\<close>: \<open>p\<close> is what \<open>malloc\<close> returns for the table.\<close>

definition ut_init :: "ut_consts \<Rightarrow> int \<Rightarrow> addr \<Rightarrow> ut_state \<Rightarrow> int res" where
  "ut_init k tab_size0 p s =
     (let tab_size =
            (if tab_size0 > MAX_TAB_SIZE k \<or> tab_size0 < MIN_TAB_SIZE k
             then MAX_TAB_SIZE k else tab_size0)
      in case (if threads_table s \<noteq> 0 then release_memory s else Inr (0, s)) of
           Inl e \<Rightarrow> Inl e
         | Inr (r, s1) \<Rightarrow>
             let s2 = s1\<lparr>threads_table_size := tab_size, next_position := 0,
                        curr_thread := 0\<rparr>;
                 s3 = (malloc p (Table (replicate (nat tab_size) uninit_slot)) s2)
                        \<lparr>threads_table := p\<rparr>
             in if threads_table s3 \<noteq> 0 then Inr (0, s3) else Inr (SYS_ERR k, s3))"

subsection \<open>ut_spawn_thread\<close>

text \<open>
  \<open>ut_spawn_thread k stack gc_ok fn ag s\<close>: \<open>stack\<close> is what \<open>malloc\<close> returns for
  the stack, \<open>gc_ok\<close> says whether \<open>getcontext\<close> succeeds. \<open>getcontext\<close> writes
  through \<open>&threads_table[next_position].uc\<close>, which faults when that is no slot of a
  live table.
\<close>

definition ut_spawn_thread ::
  "ut_consts \<Rightarrow> addr \<Rightarrow> bool \<Rightarrow> funptr \<Rightarrow> int \<Rightarrow> ut_state \<Rightarrow> int res" where
  "ut_spawn_thread k stack gc_ok fn ag s =
     (if next_position s = threads_table_size s then Inr (TAB_FULL k, s)
      else
        let s1 = malloc stack (Stack (STACKSIZE k)) s in
        if stack = 0 then Inr (SYS_ERR k, s1)
        else
          (case read_slot (next_position s1) s1 of
             Inl f \<Rightarrow> Inl (f, s1)
           | Inr sl \<Rightarrow>
               if \<not> gc_ok then Inr (SYS_ERR k, s1)
               else
                 let sl1 = sl\<lparr>uc_mcontext := Some Captured\<rparr>;
                     sl2 = sl1\<lparr>uc_link := Some UcOut\<rparr>;
                     sl3 = sl2\<lparr>ss_sp := Some stack\<rparr>;
                     sl4 = sl3\<lparr>ss_size := Some (STACKSIZE k)\<rparr>;
                     sl5 = sl4\<lparr>uc_mcontext := Some (Entry fn ag)\<rparr>;
                     sl6 = sl5\<lparr>vtime := Some 0\<rparr>;
                     sl7 = sl6\<lparr>func := Some fn\<rparr>;
                     sl8 = sl7\<lparr>arg := Some ag\<rparr>;
                     s2 = write_slot (next_position s1) sl8 s1
                 in Inr (next_position s2, s2\<lparr>next_position := next_position s2 + 1\<rparr>)))"

subsection \<open>thread_signals_handler\<close>

text \<open>
  \<open>swapcontext ok i j s\<close>, called with \<open>&threads_table[i].uc\<close> and
  \<open>&threads_table[j].uc\<close>: \<open>ok\<close> says whether the switch succeeds. A successful
  switch saves the running context in slot \<open>i\<close> and resumes the one in slot \<open>j\<close>,
  which must have been set up.
\<close>

definition swapcontext :: "bool \<Rightarrow> int \<Rightarrow> int \<Rightarrow> ut_state \<Rightarrow> int res" where
  "swapcontext ok i j s =
     (let s1 = s\<lparr>trace := trace s @ [EvSwap (SlotUc i) (SlotUc j)]\<rparr> in
      case read_slot i s1 of
        Inl f \<Rightarrow> Inl (f, s1)
      | Inr si \<Rightarrow>
          (case read_slot j s1 of
             Inl f \<Rightarrow> Inl (f, s1)
           | Inr sj \<Rightarrow>
               if \<not> ok then Inr (- 1, s1)
               else
                 (case uc_mcontext sj of
                    None \<Rightarrow> Inl (UninitRead j, s1)
                  | Some m \<Rightarrow>
                      Inr (0, write_slot i (si\<lparr>uc_mcontext := Some Suspended\<rparr>) s1))))"

text \<open>
  A call through the saved \<open>SIGINT\<close> handler: \<open>hret\<close> says whether that handler
  returns (one that ends the process does not).
\<close>

definition call_handler :: "bool \<Rightarrow> funptr \<Rightarrow> int \<Rightarrow> ut_state \<Rightarrow> unit res" where
  "call_handler hret h sg s =
     (let s1 = s\<lparr>trace := trace s @ [EvCall h sg]\<rparr> in
      if hret then Inr ((), s1) else Inl (ProcessExit, s1))"

text \<open>
  \<open>thread_signals_handler ok hret signal s\<close>: \<open>ok\<close> and \<open>hret\<close> are the
  environment's answers to \<open>swapcontext\<close> and to the call of the old handler. C's
  \<open>%\<close> truncates towards zero (\<open>smod\<close>) and is undefined for a zero divisor.
\<close>

definition thread_signals_handler :: "bool \<Rightarrow> bool \<Rightarrow> int \<Rightarrow> ut_state \<Rightarrow> unit res" where
  "thread_signals_handler ok hret signal s =
     (if signal = SIGALRM then
        let s1 = alarm QUANTUM s;
            last_thread = curr_thread s1
        in if threads_table_size s1 = 0 then Inl (DivByZero, s1)
           else
             let s2 = s1\<lparr>curr_thread := (curr_thread s1 + 1) smod threads_table_size s1\<rparr>
             in case swapcontext ok last_thread (curr_thread s2) s2 of
                  Inl e \<Rightarrow> Inl e
                | Inr (r, s3) \<Rightarrow>
                    if r = - 1 then Inl (ProcessExit, perror s3) else Inr ((), s3)
      else if signal = SIGVTALRM then
        let s1 = s\<lparr>g_vtime := g_vtime s + INTERVAL_MICRO\<rparr> in
        (case read_slot (curr_thread s1) s1 of
           Inl f \<Rightarrow> Inl (f, s1)
         | Inr sl \<Rightarrow>
             (case vtime sl of
                None \<Rightarrow> Inl (UninitRead (curr_thread s1), s1)
              | Some v \<Rightarrow>
                  Inr ((), write_slot (curr_thread s1)
                             (sl\<lparr>vtime := Some (v + INTERVAL_MICRO)\<rparr>) s1)))
      else if signal = SIGINT then
        let s1 = alarm 0 s;
            old_handler = old_sigaction s1
        in case (if old_handler \<noteq> 0 then call_handler hret old_handler SIGINT s1
                 else Inr ((), s1)) of
             Inl e \<Rightarrow> Inl e
           | Inr (u, s2) \<Rightarrow>
               (case release_memory s2 of
                  Inl e \<Rightarrow> Inl e
                | Inr (r, s3) \<Rightarrow> Inr ((), s3))
      else Inr ((), s))"

subsection \<open>ut_get_vtime\<close>

definition ut_get_vtime :: "int \<Rightarrow> ut_state \<Rightarrow> ulong res" where
  "ut_get_vtime tid s =
     (if 0 \<le> tid \<and> tid < threads_table_size s then
        (case read_slot tid s of
           Inl f \<Rightarrow> Inl (f, s)
         | Inr sl \<Rightarrow>
             (case vtime sl of
                None \<Rightarrow> Inl (UninitRead tid, s)
              | Some v \<Rightarrow> Inr (v, s)))
      else Inr (0, s))"

section \<open>Runs and observations\<close>

definition res_fault :: "'a res \<Rightarrow> fault option" where
  "res_fault r = (case r of Inl (f, s) \<Rightarrow> Some f | Inr x \<Rightarrow> None)"

definition res_value :: "'a res \<Rightarrow> 'a option" where
  "res_value r = (case r of Inl e \<Rightarrow> None | Inr (v, s) \<Rightarrow> Some v)"

text \<open>
  A sequence of \<open>ut_spawn_thread\<close> calls, each with the environment's answers
  (stack address, success of \<open>getcontext\<close>) and its arguments; the results are
  collected in call order.
\<close>

type_synonym spawn_req = "addr \<times> bool \<times> funptr \<times> int"

fun spawn_seq :: "ut_consts \<Rightarrow> spawn_req list \<Rightarrow> ut_state \<Rightarrow> (int list) res" where
  "spawn_seq k [] s = Inr ([], s)"
| "spawn_seq k ((stack, gc_ok, fn, ag) # rs) s =
     (case ut_spawn_thread k stack gc_ok fn ag s of
        Inl e \<Rightarrow> Inl e
      | Inr (t, s1) \<Rightarrow>
          (case spawn_seq k rs s1 of
             Inl e \<Rightarrow> Inl e
           | Inr (ts, s2) \<Rightarrow> Inr (t # ts, s2)))"

text \<open>\<open>n\<close> deliveries of \<open>SIGVTALRM\<close> in a row.\<close>

fun vt_ticks :: "nat \<Rightarrow> ut_state \<Rightarrow> unit res" where
  "vt_ticks 0 s = Inr ((), s)"
| "vt_ticks (Suc n) s =
     (case thread_signals_handler True True SIGVTALRM s of
        Inl e \<Rightarrow> Inl e
      | Inr (u, s1) \<Rightarrow> vt_ticks n s1)"

text \<open>
  The sum of the \<open>vtime\<close> members of the slots, in \<open>unsigned long\<close> arithmetic;
  \<open>None\<close> if one of them has never been written.
\<close>

primrec slots_vtime :: "ut_slot_t list \<Rightarrow> ulong option" where
  "slots_vtime [] = Some 0"
| "slots_vtime (x # xs) =
     (case vtime x of
        None \<Rightarrow> None
      | Some v \<Rightarrow> (case slots_vtime xs of None \<Rightarrow> None | Some t \<Rightarrow> Some (v + t)))"

definition table_vtime :: "ut_state \<Rightarrow> ulong option" where
  "table_vtime s = (case table_slots s of Inl f \<Rightarrow> None | Inr sl \<Rightarrow> slots_vtime sl)"

text \<open>The statics that only \<open>ut_init\<close>, \<open>ut_spawn_thread\<close> and the handler assign.\<close>

definition same_statics :: "ut_state \<Rightarrow> ut_state \<Rightarrow> bool" where
  "same_statics s s' =
     (threads_table s' = threads_table s \<and> threads_table_size s' = threads_table_size s
      \<and> next_position s' = next_position s \<and> curr_thread s' = curr_thread s
      \<and> g_vtime s' = g_vtime s \<and> old_sigaction s' = old_sigaction s)"

subsection \<open>Sample states\<close>

text \<open>A table of two slots, none spawned.\<close>

definition empty2 :: ut_state where
  "empty2 = res_state (ut_init ut_h 2 100 initial_state)"

text \<open>A table of two slots, both spawned.\<close>

definition full2 :: ut_state where
  "full2 = res_state (spawn_seq ut_h [(200, True, 7, 0), (300, True, 8, 1)] empty2)"

text \<open>A table of three slots, of which two are spawned.\<close>

definition two_of_three :: ut_state where
  "two_of_three =
     res_state (spawn_seq ut_h [(200, True, 7, 0), (300, True, 8, 1)]
       (res_state (ut_init ut_h 3 100 initial_state)))"

text \<open>The two-slot table after one preemption tick: slot 1 is running.\<close>

definition full2_switched :: ut_state where
  "full2_switched = res_state (thread_signals_handler True True SIGALRM full2)"

text \<open>
  The two-slot table after one virtual-clock tick, initialised again and populated
  again.
\<close>

definition full2_again :: ut_state where
  "full2_again =
     res_state (spawn_seq ut_h [(500, True, 7, 0), (600, True, 8, 1)]
       (res_state (ut_init ut_h 2 400
          (res_state (thread_signals_handler True True SIGVTALRM full2)))))"

section \<open>Properties of the binary semaphore\<close>

text \<open>
  Claim C4. \<open>binsem_down\<close> exchanges the semaphore word with 0. If the value read was
  0, it cancels the pending alarm with \<open>alarm(0)\<close>, then raises \<open>SIGALRM\<close>, and
  returns what \<open>raise\<close> returned; this is the path taken right after
  \<open>binsem_init\<close> with the value 0. If the value read was 1, it makes no call, returns
  0, and leaves the word 0.
\<close>

theorem C4_binsem_down:
  "binsem_down rr 0 p = (rr, 0, raise_sig SIGALRM (alarm 0 p))
   \<and> alarm_pending (snd (snd (binsem_down rr 0 p))) = 0
   \<and> trace (snd (snd (binsem_down rr 0 p))) = trace p @ [EvAlarm 0, EvRaise SIGALRM]
   \<and> binsem_down rr (binsem_init s 0) p = (rr, 0, raise_sig SIGALRM (alarm 0 p))
   \<and> binsem_down rr 1 p = (0, 0, p)
   \<and> fst (snd (binsem_down rr s p)) = 0"
  by (simp add: binsem_down_def binsem_init_def xchg_def raise_sig_def alarm_def)

text \<open>
  Claim C5. \<open>binsem_up\<close> leaves the semaphore word 1 whatever it was, and a
  \<open>binsem_down\<close> right after it returns 0 without calling \<open>alarm\<close> or
  \<open>raise\<close>: the environment, trace included, is unchanged.
\<close>

theorem C5_up_then_down:
  "binsem_up s = 1 \<and> binsem_down rr (binsem_up s) p = (0, 0, p)"
  by (simp add: binsem_up_def binsem_down_def xchg_def)

section \<open>Properties of the thread table\<close>

subsection \<open>Reading and writing slots\<close>

lemma table_slots_cases:
  "table_slots s = Inr sl \<longleftrightarrow> threads_table s \<noteq> 0 \<and> heap s (threads_table s) = Some (Table sl)"
  by (auto simp: table_slots_def split: option.splits block.splits)

lemma read_slot_Inr:
  "read_slot i s = Inr x \<longleftrightarrow>
     (\<exists>sl. table_slots s = Inr sl \<and> 0 \<le> i \<and> i < int (length sl) \<and> x = sl ! nat i)"
  by (auto simp: read_slot_def split: sum.splits)

lemma write_slot_eq:
  "table_slots s = Inr sl \<Longrightarrow>
     write_slot i x s = s\<lparr>heap := (heap s)(threads_table s \<mapsto> Table (sl[nat i := x]))\<rparr>"
  by (simp add: write_slot_def)

lemma write_slot_fields:
  "threads_table (write_slot i x s) = threads_table s"
  "threads_table_size (write_slot i x s) = threads_table_size s"
  "next_position (write_slot i x s) = next_position s"
  "curr_thread (write_slot i x s) = curr_thread s"
  "g_vtime (write_slot i x s) = g_vtime s"
  "old_sigaction (write_slot i x s) = old_sigaction s"
  "trace (write_slot i x s) = trace s"
  "alarm_pending (write_slot i x s) = alarm_pending s"
  by (cases "table_slots s"; simp add: write_slot_def)+

lemma table_slots_write:
  "table_slots s = Inr sl \<Longrightarrow> table_slots (write_slot i x s) = Inr (sl[nat i := x])"
  by (simp add: write_slot_eq) (simp add: table_slots_cases)


subsection \<open>The sample states, evaluated\<close>

lemmas ev =
  ut_init_def ut_spawn_thread_def ut_get_vtime_def thread_signals_handler_def
  swapcontext_def call_handler_def release_memory_def free_def
  read_slot_def table_slots_def write_slot_def malloc_def alarm_def perror_def
  ut_h_def initial_state_def uninit_slot_def
  res_state_def res_value_def res_fault_def returned_def
  SIGINT_def SIGALRM_def SIGVTALRM_def QUANTUM_def INTERVAL_MICRO_def
  Let_def numeral_2_eq_2 numeral_3_eq_3 smod_int_alt_def

lemma empty2_eq:
  "empty2 = \<lparr>heap = [100 \<mapsto> Table [uninit_slot, uninit_slot]], alarm_pending = 0,
     trace = [], threads_table = 100, threads_table_size = 2, next_position = 0,
     curr_thread = 0, g_vtime = 0, old_sigaction = 0\<rparr>"
  by (simp add: empty2_def ev)

lemma init2: "ut_init ut_h 2 100 initial_state = Inr (0, empty2)"
  by (simp add: empty2_def) (simp add: ev)

lemma full2_eq:
  "full2 = \<lparr>heap = [100 \<mapsto> Table
       [\<lparr>uc_mcontext = Some (Entry 7 0), uc_link = Some UcOut, ss_sp = Some 200,
          ss_size = Some 8192, vtime = Some 0, func = Some 7, arg = Some 0\<rparr>,
        \<lparr>uc_mcontext = Some (Entry 8 1), uc_link = Some UcOut, ss_sp = Some 300,
          ss_size = Some 8192, vtime = Some 0, func = Some 8, arg = Some 1\<rparr>],
       200 \<mapsto> Stack 8192, 300 \<mapsto> Stack 8192],
     alarm_pending = 0, trace = [], threads_table = 100, threads_table_size = 2,
     next_position = 2, curr_thread = 0, g_vtime = 0, old_sigaction = 0\<rparr>"
  by (simp add: full2_def empty2_eq) (simp add: ev fun_upd_twist)

lemma spawn2: "spawn_seq ut_h [(200, True, 7, 0), (300, True, 8, 1)] empty2 = Inr ([0, 1], full2)"
  by (simp add: full2_def) (simp add: empty2_eq ev)


text \<open>
  Claim C3, as amended. \<open>ut_get_vtime\<close> returns 0 for every identifier below 0 and
  for every identifier at or above \<open>threads_table_size\<close>.
\<close>

theorem C3_out_of_range:
  "tid < 0 \<or> threads_table_size s \<le> tid \<Longrightarrow> ut_get_vtime tid s = Inr (0, s)"
  by (auto simp: ut_get_vtime_def)

theorem C3_out_of_range_witness:
  "ut_get_vtime (- 1) empty2 = Inr (0, empty2) \<and> ut_get_vtime 2 empty2 = Inr (0, empty2)"
proof -
  have sz: "threads_table_size empty2 = 2" by (simp add: empty2_eq)
  show ?thesis
    using C3_out_of_range [of "- 1" empty2] C3_out_of_range [of 2 empty2] sz by simp
qed

text \<open>
  Claim C3 as stated fails for a valid index whose slot has never been spawned: the table
  comes from \<open>malloc\<close>, only \<open>ut_spawn_thread\<close> writes \<open>vtime\<close>, and
  \<open>ut_get_vtime\<close> reads the member that was never written. In a fresh table of two
  slots, identifier 0 is in range and the call does not yield 0.
\<close>

theorem C3_never_spawned_counterexample:
  "threads_table_size empty2 = 2 \<and> next_position empty2 = 0
   \<and> res_fault (ut_get_vtime 0 empty2) = Some (UninitRead 0)
   \<and> res_value (ut_get_vtime 0 empty2) \<noteq> Some 0"
  by (simp add: empty2_eq) (simp add: ev)

text \<open>
  Claim C10. \<open>ut_get_vtime\<close> changes nothing: for every identifier and every state,
  the state after the call (whether it returned or faulted on the read) is the state
  before it, with the heap and so the table and every slot, \<open>next_position\<close>,
  \<open>curr_thread\<close> and the accumulator.
\<close>

theorem C10_get_vtime_pure: "res_state (ut_get_vtime tid s) = s"
  by (simp add: ut_get_vtime_def res_state_def split: sum.splits option.splits)

subsection \<open>ut_init\<close>

lemma ut_init_returned:
  "returned (ut_init k n p s) = (threads_table s = 0 \<or> returned (release_memory s))"
  by (auto simp: ut_init_def returned_def Let_def split: sum.splits prod.splits)

lemma ut_init_fields:
  assumes "ut_init k n p s = Inr (r, s')"
  shows "next_position s' = 0" "curr_thread s' = 0" "threads_table s' = p"
    "threads_table_size s' =
       (if n > MAX_TAB_SIZE k \<or> n < MIN_TAB_SIZE k then MAX_TAB_SIZE k else n)"
    "r = (if p = 0 then SYS_ERR k else 0)"
  using assms
  by (auto simp: ut_init_def Let_def malloc_def split: sum.splits prod.splits if_splits)

lemma res_eqI: "returned r \<Longrightarrow> res_value r = Some v \<Longrightarrow> r = Inr (v, res_state r)"
  by (auto simp: returned_def res_value_def res_state_def split: sum.splits prod.splits)

text \<open>
  Claim C7. A \<open>tab_size\<close> outside \<open>[MIN_TAB_SIZE, MAX_TAB_SIZE]\<close> gives the very
  result of \<open>ut_init(MAX_TAB_SIZE)\<close>. The call returns unless the teardown of an
  existing table faults, and always when there is no table. When it returns,
  \<open>next_position\<close> and \<open>curr_thread\<close> are 0, and the value is \<open>SYS_ERR\<close> exactly
  when \<open>malloc\<close> returned \<open>NULL\<close>, and 0 otherwise.
\<close>

theorem C7_init:
  "(n > MAX_TAB_SIZE k \<or> n < MIN_TAB_SIZE k \<longrightarrow>
      ut_init k n p s = ut_init k (MAX_TAB_SIZE k) p s)
   \<and> returned (ut_init k n p s) = (threads_table s = 0 \<or> returned (release_memory s))
   \<and> (\<forall>r s'. ut_init k n p s = Inr (r, s') \<longrightarrow>
         next_position s' = 0 \<and> curr_thread s' = 0
         \<and> (SYS_ERR k < 0 \<longrightarrow> (r = SYS_ERR k) = (p = 0))
         \<and> (p \<noteq> 0 \<longrightarrow> r = 0))"
proof (intro conjI allI impI)
  assume "n > MAX_TAB_SIZE k \<or> n < MIN_TAB_SIZE k"
  then show "ut_init k n p s = ut_init k (MAX_TAB_SIZE k) p s"
    by (simp add: ut_init_def)
next
  show "returned (ut_init k n p s) = (threads_table s = 0 \<or> returned (release_memory s))"
    by (rule ut_init_returned)
next
  fix r s' assume h: "ut_init k n p s = Inr (r, s')"
  show "next_position s' = 0" by (rule ut_init_fields(1) [OF h])
  show "curr_thread s' = 0" by (rule ut_init_fields(2) [OF h])
  { assume "SYS_ERR k < 0"
    then show "(r = SYS_ERR k) = (p = 0)" using ut_init_fields(5) [OF h] by auto }
  { assume "p \<noteq> 0"
    then show "r = 0" using ut_init_fields(5) [OF h] by simp }
qed

theorem C7_init_witness:
  "ut_init ut_h 500 100 initial_state = ut_init ut_h 128 100 initial_state
   \<and> returned (ut_init ut_h 500 100 initial_state)
   \<and> res_value (ut_init ut_h 500 100 initial_state) = Some 0
   \<and> res_value (ut_init ut_h 1 0 initial_state) = Some (- 1)
   \<and> next_position (res_state (ut_init ut_h 500 100 initial_state)) = 0
   \<and> curr_thread (res_state (ut_init ut_h 500 100 initial_state)) = 0"
proof -
  have mx: "MAX_TAB_SIZE ut_h = 128" "MIN_TAB_SIZE ut_h = 2" "SYS_ERR ut_h = - 1"
    by (simp_all add: ut_h_def)
  have nt: "threads_table initial_state = 0" by (simp add: initial_state_def)
  note a = C7_init [where k = ut_h and n = 500 and p = 100 and s = initial_state]
  note b = C7_init [where k = ut_h and n = 1 and p = 0 and s = initial_state]
  have ra: "returned (ut_init ut_h 500 100 initial_state)" using a nt by simp
  have rb: "returned (ut_init ut_h 1 0 initial_state)" using b nt by simp
  obtain r s' where ha: "ut_init ut_h 500 100 initial_state = Inr (r, s')"
    using ra by (auto simp: returned_def split: sum.splits)
  obtain r2 s2 where hb: "ut_init ut_h 1 0 initial_state = Inr (r2, s2)"
    using rb by (auto simp: returned_def split: sum.splits)
  have v: "r = 0" "next_position s' = 0" "curr_thread s' = 0" using a ha by auto
  have v2: "r2 = - 1" using b hb mx by auto
  have e: "ut_init ut_h 500 100 initial_state = ut_init ut_h 128 100 initial_state"
    using a mx by simp
  have c1: "res_value (ut_init ut_h 500 100 initial_state) = Some 0"
    and c2: "next_position (res_state (ut_init ut_h 500 100 initial_state)) = 0"
    and c3: "curr_thread (res_state (ut_init ut_h 500 100 initial_state)) = 0"
    and c4: "res_value (ut_init ut_h 1 0 initial_state) = Some (- 1)"
    using v v2 by (simp_all add: ha hb res_value_def res_state_def)
  show ?thesis
    by (intro conjI) (rule e ra c1 c2 c3 c4)+
qed

text \<open>
  Claim C9. When \<open>malloc\<close> returns \<open>NULL\<close>, a returning \<open>ut_init\<close> yields
  \<open>SYS_ERR\<close> and leaves \<open>threads_table\<close> null, yet \<open>threads_table_size\<close> holds the
  clamped request and \<open>next_position\<close> and \<open>curr_thread\<close> are 0. Every identifier
  that passes the range check of \<open>ut_get_vtime\<close> is then read through the null
  pointer, and with the constants of the spec identifier 0 is one of them.
\<close>

theorem C9_failed_init:
  assumes "ut_init k n 0 s = Inr (r, s')"
  shows "r = SYS_ERR k \<and> threads_table s' = 0
    \<and> threads_table_size s' =
        (if n > MAX_TAB_SIZE k \<or> n < MIN_TAB_SIZE k then MAX_TAB_SIZE k else n)
    \<and> next_position s' = 0 \<and> curr_thread s' = 0
    \<and> (\<forall>tid. 0 \<le> tid \<and> tid < threads_table_size s' \<longrightarrow>
          ut_get_vtime tid s' = Inl (NullDeref, s'))
    \<and> (ut_consts_ok k \<longrightarrow> ut_get_vtime 0 s' = Inl (NullDeref, s'))"
proof -
  note f = ut_init_fields [OF assms]
  have null: "threads_table s' = 0" using f(3) by simp
  have deref: "ut_get_vtime tid s' = Inl (NullDeref, s')"
    if "0 \<le> tid \<and> tid < threads_table_size s'" for tid
    using that null by (simp add: ut_get_vtime_def read_slot_def table_slots_def)
  have pos: "0 < threads_table_size s'" if "ut_consts_ok k"
    using that f(4) by (auto simp: ut_consts_ok_def split: if_splits)
  show ?thesis
    using f(1,2,4,5) null deref pos by auto
qed

theorem C9_failed_init_witness:
  "ut_consts_ok ut_h \<and> returned (ut_init ut_h 3 0 initial_state)
   \<and> res_value (ut_init ut_h 3 0 initial_state) = Some (- 1)
   \<and> threads_table (res_state (ut_init ut_h 3 0 initial_state)) = 0
   \<and> threads_table_size (res_state (ut_init ut_h 3 0 initial_state)) = 3
   \<and> res_fault (ut_get_vtime 2 (res_state (ut_init ut_h 3 0 initial_state)))
       = Some NullDeref"
proof -
  obtain r s' where h: "ut_init ut_h 3 0 initial_state = Inr (r, s')"
    by (simp add: ut_init_def initial_state_def Let_def)
  have ok: "ut_consts_ok ut_h" by (simp add: ut_consts_ok_def ut_h_def)
  have mx: "MAX_TAB_SIZE ut_h = 128" "MIN_TAB_SIZE ut_h = 2" "SYS_ERR ut_h = - 1"
    by (simp_all add: ut_h_def)
  from C9_failed_init [OF h] mx ok show ?thesis
    by (simp add: h returned_def res_value_def res_state_def res_fault_def)
qed

subsection \<open>ut_spawn_thread\<close>

lemma spawn_full:
  "next_position s = threads_table_size s \<Longrightarrow>
     ut_spawn_thread k st gc fn ag s = Inr (TAB_FULL k, s)"
  by (simp add: ut_spawn_thread_def)

lemma spawn_success:
  assumes "ut_spawn_thread k st gc fn ag s = Inr (t, s')" "0 \<le> t" "SYS_ERR k < 0"
    "TAB_FULL k < 0"
  shows "\<exists>sl x. table_slots s = Inr sl \<and> 0 \<le> next_position s
      \<and> next_position s < int (length sl) \<and> t = next_position s
      \<and> next_position s' = next_position s + 1
      \<and> table_slots s' = Inr (sl[nat (next_position s) := x])
      \<and> vtime x = Some 0 \<and> ss_sp x = Some st
      \<and> threads_table s' = threads_table s
      \<and> threads_table_size s' = threads_table_size s
      \<and> curr_thread s' = curr_thread s \<and> g_vtime s' = g_vtime s
      \<and> old_sigaction s' = old_sigaction s \<and> trace s' = trace s
      \<and> alarm_pending s' = alarm_pending s"
proof -
  define s1 where "s1 = malloc st (Stack (STACKSIZE k)) s"
  from assms have ne: "next_position s \<noteq> threads_table_size s" "st \<noteq> 0" "gc"
    by (auto simp: ut_spawn_thread_def Let_def split: if_splits sum.splits)
  have f1: "threads_table s1 = threads_table s" "threads_table_size s1 = threads_table_size s"
    "next_position s1 = next_position s" "curr_thread s1 = curr_thread s"
    "g_vtime s1 = g_vtime s" "old_sigaction s1 = old_sigaction s" "trace s1 = trace s"
    "alarm_pending s1 = alarm_pending s" "heap s1 = (heap s)(st \<mapsto> Stack (STACKSIZE k))"
    using ne by (simp_all add: s1_def malloc_def)
  from assms ne obtain sl0 where r: "read_slot (next_position s) s1 = Inr sl0"
    by (auto simp: ut_spawn_thread_def Let_def s1_def [symmetric] f1 split: if_splits sum.splits)
  then obtain sl where t1: "table_slots s1 = Inr sl" and b: "0 \<le> next_position s"
    "next_position s < int (length sl)"
    by (auto simp: read_slot_Inr)
  from t1 have t0: "table_slots s = Inr sl"
    by (auto simp: table_slots_cases f1 split: if_splits)
  define x where "x = sl0\<lparr>uc_link := Some UcOut, ss_sp := Some st,
     ss_size := Some (STACKSIZE k), uc_mcontext := Some (Entry fn ag), vtime := Some 0,
     func := Some fn, arg := Some ag\<rparr>"
  from assms(1) ne r have s': "s' = (write_slot (next_position s) x s1)
      \<lparr>next_position := next_position s + 1\<rparr>" and t: "t = next_position s"
    by (auto simp: ut_spawn_thread_def Let_def x_def s1_def [symmetric] f1 write_slot_fields)
  have ts': "table_slots s' = Inr (sl[nat (next_position s) := x])"
    using table_slots_write [OF t1, of "next_position s" x]
    by (simp add: s' table_slots_cases)
  show ?thesis
    apply (rule exI [of _ sl], rule exI [of _ x])
    using t0 b t ts' by (simp add: s' write_slot_fields f1) (simp add: x_def)
qed

lemma spawn_seq_count:
  assumes "spawn_seq k rs s = Inr (ts, s')" "\<forall>t\<in>set ts. 0 \<le> t" "SYS_ERR k < 0"
    "TAB_FULL k < 0"
  shows "next_position s' = next_position s + int (length rs)
     \<and> threads_table_size s' = threads_table_size s \<and> length ts = length rs"
  using assms
proof (induction rs arbitrary: s ts)
  case Nil
  then show ?case by simp
next
  case (Cons rq rs)
  obtain st gc fn ag where rq: "rq = (st, gc, fn, ag)" by (cases rq) auto
  from Cons.prems(1) obtain t s1 ts1 where
    a: "ut_spawn_thread k st gc fn ag s = Inr (t, s1)" and
    b: "spawn_seq k rs s1 = Inr (ts1, s')" and c: "ts = t # ts1"
    by (auto simp: rq split: sum.splits prod.splits)
  from Cons.prems(2) c have t0: "0 \<le> t" and ts0: "\<forall>t\<in>set ts1. 0 \<le> t" by auto
  from spawn_success [OF a t0 Cons.prems(3,4)]
  have d: "next_position s1 = next_position s + 1"
    "threads_table_size s1 = threads_table_size s" by auto
  from Cons.IH [OF b ts0 Cons.prems(3,4)] d c show ?case by simp
qed

text \<open>
  Claim C6. Whenever \<open>next_position\<close> equals \<open>threads_table_size\<close>,
  \<open>ut_spawn_thread\<close> returns \<open>TAB_FULL\<close> and the state after the call is the state
  before it. After an \<open>ut_init\<close> that succeeded and as many successful
  \<open>ut_spawn_thread\<close> calls as the table has slots, the two are equal, so the next call
  fails this way; \<open>TAB_FULL\<close> differs from \<open>SYS_ERR\<close> and from every identifier
  returned.
\<close>

theorem C6_table_full:
  "(next_position s = threads_table_size s \<longrightarrow>
      ut_spawn_thread k st gc fn ag s = Inr (TAB_FULL k, s))
   \<and> (ut_consts_ok k \<and> ut_init k n p s0 = Inr (0, s1) \<and> spawn_seq k rs s1 = Inr (ts, s2)
        \<and> (\<forall>t\<in>set ts. 0 \<le> t) \<and> int (length rs) = threads_table_size s1 \<longrightarrow>
      next_position s2 = threads_table_size s2 \<and> TAB_FULL k \<notin> set ts
      \<and> TAB_FULL k \<noteq> SYS_ERR k
      \<and> ut_spawn_thread k st gc fn ag s2 = Inr (TAB_FULL k, s2))"
proof (intro conjI impI)
  assume "next_position s = threads_table_size s"
  then show "ut_spawn_thread k st gc fn ag s = Inr (TAB_FULL k, s)" by (rule spawn_full)
next
  assume h: "ut_consts_ok k \<and> ut_init k n p s0 = Inr (0, s1) \<and> spawn_seq k rs s1 = Inr (ts, s2)
        \<and> (\<forall>t\<in>set ts. 0 \<le> t) \<and> int (length rs) = threads_table_size s1"
  then have k: "SYS_ERR k < 0" "TAB_FULL k < 0" "TAB_FULL k \<noteq> SYS_ERR k"
    by (auto simp: ut_consts_ok_def)
  from h have np: "next_position s1 = 0" by (auto dest: ut_init_fields(1))
  from h spawn_seq_count [of k rs s1 ts s2] k np
  show full: "next_position s2 = threads_table_size s2" by auto
  show "TAB_FULL k \<notin> set ts" using h k by auto
  show "TAB_FULL k \<noteq> SYS_ERR k" by (rule k)
  show "ut_spawn_thread k st gc fn ag s2 = Inr (TAB_FULL k, s2)"
    by (rule spawn_full [OF full])
qed

theorem C6_table_full_witness:
  "next_position full2 = threads_table_size full2
   \<and> ut_spawn_thread ut_h 700 True 9 2 full2 = Inr (TAB_FULL ut_h, full2)"
proof -
  have ok: "ut_consts_ok ut_h" by (simp add: ut_consts_ok_def ut_h_def)
  have sz: "threads_table_size empty2 = 2" by (simp add: empty2_eq)
  show ?thesis
    using C6_table_full [where k = ut_h and n = 2 and p = 100 and ?s0.0 = initial_state
        and ?s1.0 = empty2 and rs = "[(200, True, 7, 0), (300, True, 8, 1)]"
        and ts = "[0, 1]" and ?s2.0 = full2 and st = 700 and gc = True and fn = 9 and ag = 2
        and s = full2]
      ok init2 spawn2 sz by simp
qed

subsection \<open>release_memory keeps the statics\<close>

lemma free_statics:
  "free p s = Inr s' \<Longrightarrow> same_statics s s' \<and> alarm_pending s' = alarm_pending s"
  by (auto simp: free_def same_statics_def split: if_splits option.splits)

lemma same_statics_refl: "same_statics s s"
  by (simp add: same_statics_def)

lemma same_statics_trans: "same_statics a b \<Longrightarrow> same_statics b c \<Longrightarrow> same_statics a c"
  by (simp add: same_statics_def)

lemma release_loop_statics:
  "same_statics s (case release_loop i s of Inl (f, s') \<Rightarrow> s' | Inr s' \<Rightarrow> s')"
proof (induction i s rule: release_loop.induct)
  case (1 i s)
  show ?case
  proof (cases "i < threads_table_size s")
    case False
    then show ?thesis by (simp add: release_loop.simps [of i s] same_statics_refl)
  next
    case True
    show ?thesis
    proof (cases "read_slot i s")
      case (Inl f)
      with True show ?thesis by (simp add: release_loop.simps [of i s] same_statics_refl)
    next
      case (Inr sl)
      show ?thesis
      proof (cases "ss_sp sl")
        case None
        with True Inr show ?thesis by (simp add: release_loop.simps [of i s] same_statics_refl)
      next
        case (Some p)
        show ?thesis
        proof (cases "free p s")
          case (Inl f)
          with True Inr Some show ?thesis
            by (simp add: release_loop.simps [of i s] same_statics_refl)
        next
          case (Inr s1)
          note fr = this
          from free_statics [OF fr] have a: "same_statics s s1" by simp
          from "1.IH" [OF True \<open>read_slot i s = Inr sl\<close> Some fr]
          have b: "same_statics s1 (case release_loop (i + 1) s1 of Inl (f, s') \<Rightarrow> s' | Inr s' \<Rightarrow> s')" .
          from True \<open>read_slot i s = Inr sl\<close> Some fr
          have "release_loop i s = release_loop (i + 1) s1"
            by (simp add: release_loop.simps [of i s])
          with same_statics_trans [OF a b] show ?thesis by simp
        qed
      qed
    qed
  qed
qed

lemma release_memory_statics: "same_statics s (res_state (release_memory s))"
proof (cases "threads_table s = 0")
  case True
  then show ?thesis by (simp add: release_memory_def res_state_def perror_def same_statics_def)
next
  case False
  note a = release_loop_statics [of s 0]
  show ?thesis
  proof (cases "release_loop 0 s")
    case (Inl e)
    with a False show ?thesis
      by (cases e) (simp add: release_memory_def res_state_def)
  next
    case (Inr s1)
    with a have b: "same_statics s s1" by simp
    show ?thesis
    proof (cases "free (threads_table s1) s1")
      case (Inl f)
      with Inr b False show ?thesis by (simp add: release_memory_def res_state_def)
    next
      case (Inr s2)
      from free_statics [OF this] b have "same_statics s s2"
        by (auto intro: same_statics_trans)
      with Inr \<open>release_loop 0 s = Inr s1\<close> False show ?thesis
        by (simp add: release_memory_def res_state_def)
    qed
  qed
qed

section \<open>Properties of the scheduler\<close>

subsection \<open>Preemption ticks\<close>

lemma smod_nonneg: "0 \<le> a \<Longrightarrow> 0 < b \<Longrightarrow> (a::int) smod b = a mod b"
  by (simp add: smod_int_alt_def sgn_if)

lemma table_slots_cong:
  "heap s' = heap s \<Longrightarrow> threads_table s' = threads_table s \<Longrightarrow>
     table_slots s' = table_slots s"
  by (auto simp: table_slots_def split: option.splits block.splits)

lemma read_slot_cong:
  "heap s' = heap s \<Longrightarrow> threads_table s' = threads_table s \<Longrightarrow>
     read_slot i s' = read_slot i s"
  using table_slots_cong [of s' s] by (simp add: read_slot_def)

lemma swapcontext_state:
  "res_state (swapcontext ok i j s) =
     (if returned (swapcontext ok i j s) \<and> res_value (swapcontext ok i j s) = Some 0
      then write_slot i (case read_slot i s of Inr si \<Rightarrow> si\<lparr>uc_mcontext := Some Suspended\<rparr>)
             (s\<lparr>trace := trace s @ [EvSwap (SlotUc i) (SlotUc j)]\<rparr>)
      else s\<lparr>trace := trace s @ [EvSwap (SlotUc i) (SlotUc j)]\<rparr>)"
  by (auto simp: swapcontext_def Let_def res_state_def returned_def res_value_def
        read_slot_def table_slots_def
      split: sum.splits option.splits block.splits if_splits)

lemma swapcontext_fields:
  "same_statics s (res_state (swapcontext ok i j s))"
  "alarm_pending (res_state (swapcontext ok i j s)) = alarm_pending s"
  "trace (res_state (swapcontext ok i j s)) = trace s @ [EvSwap (SlotUc i) (SlotUc j)]"
  by (simp_all add: swapcontext_state write_slot_fields same_statics_def)

lemma swapcontext_returned:
  "(returned (swapcontext ok i j s) \<and> res_value (swapcontext ok i j s) = Some 0) =
     (ok \<and> (\<exists>si sj. read_slot i s = Inr si \<and> read_slot j s = Inr sj
        \<and> uc_mcontext sj \<noteq> None))"
  by (auto simp: swapcontext_def Let_def returned_def res_value_def read_slot_def
        table_slots_def
      split: sum.splits option.splits block.splits if_splits)

lemma swapcontext_values:
  "swapcontext ok i j s = Inr (r, s') \<Longrightarrow> r = 0 \<or> r = - 1"
  by (auto simp: swapcontext_def Let_def split: sum.splits option.splits if_splits)

lemma handler_alarm_cases:
  assumes "threads_table_size s \<noteq> 0"
  shows "res_state (thread_signals_handler ok hret SIGALRM s) =
      res_state (swapcontext ok (curr_thread s)
        ((curr_thread s + 1) smod threads_table_size s)
        ((alarm QUANTUM s)\<lparr>curr_thread := (curr_thread s + 1) smod threads_table_size s\<rparr>))
    \<or> res_state (thread_signals_handler ok hret SIGALRM s) =
      perror (res_state (swapcontext ok (curr_thread s)
        ((curr_thread s + 1) smod threads_table_size s)
        ((alarm QUANTUM s)\<lparr>curr_thread := (curr_thread s + 1) smod threads_table_size s\<rparr>)))"
  using assms
  by (auto simp: thread_signals_handler_def Let_def alarm_def res_state_def
      split: sum.splits prod.splits)

lemma handler_alarm_fields:
  assumes "threads_table_size s \<noteq> 0"
  shows "alarm_pending (res_state (thread_signals_handler ok hret SIGALRM s)) = QUANTUM"
    "curr_thread (res_state (thread_signals_handler ok hret SIGALRM s)) =
       (curr_thread s + 1) smod threads_table_size s"
    "threads_table_size (res_state (thread_signals_handler ok hret SIGALRM s)) =
       threads_table_size s"
    "take (length (trace s) + 2) (trace (res_state (thread_signals_handler ok hret SIGALRM s))) =
       trace s @ [EvAlarm QUANTUM, EvSwap (SlotUc (curr_thread s))
         (SlotUc ((curr_thread s + 1) smod threads_table_size s))]"
  using handler_alarm_cases [OF assms, of ok hret]
    swapcontext_fields [where s = "(alarm QUANTUM s)\<lparr>curr_thread := (curr_thread s + 1) smod threads_table_size s\<rparr>"
      and ok = ok and i = "curr_thread s"
      and j = "(curr_thread s + 1) smod threads_table_size s"]
  by (auto simp: same_statics_def perror_def alarm_def)

lemma handler_alarm_returned:
  assumes "threads_table_size s \<noteq> 0"
  shows "returned (thread_signals_handler ok hret SIGALRM s) =
     (ok \<and> (\<exists>si sj. read_slot (curr_thread s) s = Inr si
        \<and> read_slot ((curr_thread s + 1) smod threads_table_size s) s = Inr sj
        \<and> uc_mcontext sj \<noteq> None))"
proof -
  let ?s2 = "(alarm QUANTUM s)\<lparr>curr_thread := (curr_thread s + 1) smod threads_table_size s\<rparr>"
  let ?sw = "swapcontext ok (curr_thread s) ((curr_thread s + 1) smod threads_table_size s) ?s2"
  have rd: "read_slot i ?s2 = read_slot i s" for i
    by (rule read_slot_cong) (simp_all add: alarm_def)
  have "returned (thread_signals_handler ok hret SIGALRM s) =
      (returned ?sw \<and> res_value ?sw = Some 0)"
    using assms swapcontext_values [of ok "curr_thread s" "(curr_thread s + 1) smod threads_table_size s" ?s2]
    by (auto simp: thread_signals_handler_def Let_def alarm_def returned_def res_value_def
        split: sum.splits prod.splits)
  then show ?thesis
    by (simp add: swapcontext_returned rd)
qed

lemma handler_other_statics:
  assumes "signal \<noteq> SIGALRM"
  shows "curr_thread (res_state (thread_signals_handler ok hret signal s)) = curr_thread s"
    "threads_table_size (res_state (thread_signals_handler ok hret signal s)) =
       threads_table_size s"
proof -
  have a: "same_statics (alarm 0 s) (res_state (release_memory (alarm 0 s)))"
    by (rule release_memory_statics)
  have b: "same_statics (s1::ut_state) (res_state (release_memory s1))" for s1
    by (rule release_memory_statics)
  have "curr_thread (res_state (thread_signals_handler ok hret signal s)) = curr_thread s
    \<and> threads_table_size (res_state (thread_signals_handler ok hret signal s)) =
       threads_table_size s"
  proof (cases "signal = SIGVTALRM")
    case True
    with assms show ?thesis
      by (auto simp: thread_signals_handler_def Let_def res_state_def write_slot_fields
          split: sum.splits option.splits)
  next
    case False
    show ?thesis
    proof (cases "signal = SIGINT")
      case False
      with assms \<open>signal \<noteq> SIGVTALRM\<close> show ?thesis
        by (simp add: thread_signals_handler_def res_state_def)
    next
      case True
      define s1 where "s1 = alarm 0 s"
      have f: "curr_thread s1 = curr_thread s" "threads_table_size s1 = threads_table_size s"
        by (simp_all add: s1_def alarm_def)
      show ?thesis
      proof (cases "old_sigaction s1 \<noteq> 0 \<and> \<not> hret")
        case True
        with \<open>signal = SIGINT\<close> assms \<open>signal \<noteq> SIGVTALRM\<close> f show ?thesis
          by (simp add: thread_signals_handler_def Let_def s1_def [symmetric]
              call_handler_def res_state_def)
      next
        case False
        define s2 where "s2 = (if old_sigaction s1 \<noteq> 0
          then s1\<lparr>trace := trace s1 @ [EvCall (old_sigaction s1) SIGINT]\<rparr> else s1)"
        have g: "curr_thread s2 = curr_thread s" "threads_table_size s2 = threads_table_size s"
          by (simp_all add: s2_def f)
        from False \<open>signal = SIGINT\<close> assms \<open>signal \<noteq> SIGVTALRM\<close>
        have "res_state (thread_signals_handler ok hret signal s) =
            res_state (release_memory s2)"
          by (auto simp: thread_signals_handler_def Let_def s1_def [symmetric]
              call_handler_def res_state_def s2_def split: sum.splits prod.splits)
        with b [of s2] g show ?thesis by (simp add: same_statics_def)
      qed
    qed
  qed
  then show "curr_thread (res_state (thread_signals_handler ok hret signal s)) = curr_thread s"
    "threads_table_size (res_state (thread_signals_handler ok hret signal s)) =
       threads_table_size s" by simp_all
qed

lemma spawn_curr:
  "curr_thread (res_state (ut_spawn_thread k st gc fn ag s)) = curr_thread s"
  by (auto simp: ut_spawn_thread_def Let_def res_state_def malloc_def write_slot_fields
      split: sum.splits)

lemma init_curr:
  "curr_thread (res_state (ut_init k n p s)) =
     (if returned (ut_init k n p s) then 0 else curr_thread s)"
proof (cases "returned (ut_init k n p s)")
  case True
  then obtain r s' where "ut_init k n p s = Inr (r, s')"
    by (auto simp: returned_def split: sum.splits)
  with True ut_init_fields(2) [OF this] show ?thesis by (simp add: res_state_def)
next
  case False
  then have nz: "threads_table s \<noteq> 0" and nr: "\<not> returned (release_memory s)"
    by (simp_all add: ut_init_returned)
  then have "res_state (ut_init k n p s) = res_state (release_memory s)"
    by (auto simp: ut_init_def Let_def returned_def res_state_def split: sum.splits)
  with release_memory_statics [of s] False show ?thesis by (simp add: same_statics_def)
qed



lemmas loop_ev = release_loop.simps [of 0] release_loop.simps [of 1] release_loop.simps [of 2]
  release_loop.simps [of 3]

text \<open>
  Claim C1 as stated fails in its last part: \<open>ut_init\<close> assigns \<open>curr_thread\<close> too.
  After one preemption tick on the two-slot table slot 1 is running; a further
  \<open>ut_init\<close> returns with \<open>curr_thread\<close> 0, and calls nothing but \<open>free\<close>.
\<close>

theorem C1_init_resets_counterexample:
  "curr_thread full2_switched = 1
   \<and> returned (ut_init ut_h 2 400 full2_switched)
   \<and> curr_thread (res_state (ut_init ut_h 2 400 full2_switched)) = 0
   \<and> trace (res_state (ut_init ut_h 2 400 full2_switched)) =
       trace full2_switched @ [EvFree 200, EvFree 300, EvFree 100]"
  by (simp add: full2_switched_def full2_eq) (simp add: ev loop_ev)

text \<open>
  Claim C1, as amended. In a state with \<open>0 \<le> curr_thread < threads_table_size\<close>, the
  handler called with \<open>SIGALRM\<close> calls \<open>alarm(QUANTUM)\<close>, then \<open>swapcontext\<close> from
  the slot at \<open>curr_thread\<close> to the slot at
  \<open>(curr_thread + 1) mod threads_table_size\<close>, whether that slot was spawned or not, and
  leaves \<open>curr_thread\<close> at that index, again within the table. It returns exactly when
  the switch succeeds, which needs a live table and a context in the target slot, and the
  old slot then holds the suspended context. \<open>curr_thread\<close> is assigned nowhere else
  but in \<open>ut_init\<close>: the handler on any other signal, \<open>ut_spawn_thread\<close>,
  \<open>ut_get_vtime\<close> and \<open>release_memory\<close> leave it as it is, and a returning
  \<open>ut_init\<close> sets it to 0.
\<close>

theorem C1_round_robin:
  "(0 \<le> curr_thread s \<and> curr_thread s < threads_table_size s \<longrightarrow>
      alarm_pending (res_state (thread_signals_handler ok hret SIGALRM s)) = QUANTUM
    \<and> curr_thread (res_state (thread_signals_handler ok hret SIGALRM s)) =
        (curr_thread s + 1) mod threads_table_size s
    \<and> take (length (trace s) + 2)
         (trace (res_state (thread_signals_handler ok hret SIGALRM s))) =
        trace s @ [EvAlarm QUANTUM, EvSwap (SlotUc (curr_thread s))
          (SlotUc ((curr_thread s + 1) mod threads_table_size s))]
    \<and> 0 \<le> curr_thread (res_state (thread_signals_handler ok hret SIGALRM s))
    \<and> curr_thread (res_state (thread_signals_handler ok hret SIGALRM s))
        < threads_table_size (res_state (thread_signals_handler ok hret SIGALRM s))
    \<and> returned (thread_signals_handler ok hret SIGALRM s) =
        (ok \<and> (\<exists>si sj. read_slot (curr_thread s) s = Inr si
           \<and> read_slot ((curr_thread s + 1) mod threads_table_size s) s = Inr sj
           \<and> uc_mcontext sj \<noteq> None)))
   \<and> (signal \<noteq> SIGALRM \<longrightarrow>
        curr_thread (res_state (thread_signals_handler ok hret signal s)) = curr_thread s
      \<and> threads_table_size (res_state (thread_signals_handler ok hret signal s)) =
          threads_table_size s)
   \<and> curr_thread (res_state (ut_spawn_thread k st gc fn ag s)) = curr_thread s
   \<and> curr_thread (res_state (ut_get_vtime tid s)) = curr_thread s
   \<and> curr_thread (res_state (release_memory s)) = curr_thread s
   \<and> curr_thread (res_state (ut_init k n p s)) =
       (if returned (ut_init k n p s) then 0 else curr_thread s)"
proof (intro conjI impI)
  assume inv: "0 \<le> curr_thread s \<and> curr_thread s < threads_table_size s"
  then have nz: "threads_table_size s \<noteq> 0" by auto
  from inv have md: "(curr_thread s + 1) smod threads_table_size s =
      (curr_thread s + 1) mod threads_table_size s"
    by (simp add: smod_nonneg)
  note f = handler_alarm_fields [OF nz, of ok hret, unfolded md]
  show "alarm_pending (res_state (thread_signals_handler ok hret SIGALRM s)) = QUANTUM"
    by (rule f(1))
  show c: "curr_thread (res_state (thread_signals_handler ok hret SIGALRM s)) =
      (curr_thread s + 1) mod threads_table_size s"
    by (rule f(2))
  show "take (length (trace s) + 2)
         (trace (res_state (thread_signals_handler ok hret SIGALRM s))) =
        trace s @ [EvAlarm QUANTUM, EvSwap (SlotUc (curr_thread s))
          (SlotUc ((curr_thread s + 1) mod threads_table_size s))]"
    by (rule f(4))
  show "0 \<le> curr_thread (res_state (thread_signals_handler ok hret SIGALRM s))"
    using inv by (simp add: c)
  show "curr_thread (res_state (thread_signals_handler ok hret SIGALRM s))
        < threads_table_size (res_state (thread_signals_handler ok hret SIGALRM s))"
    using inv by (simp add: c f(3))
  show "returned (thread_signals_handler ok hret SIGALRM s) =
        (ok \<and> (\<exists>si sj. read_slot (curr_thread s) s = Inr si
           \<and> read_slot ((curr_thread s + 1) mod threads_table_size s) s = Inr sj
           \<and> uc_mcontext sj \<noteq> None))"
    using handler_alarm_returned [OF nz, of ok hret] by (simp add: md)
next
  assume "signal \<noteq> SIGALRM"
  then show "curr_thread (res_state (thread_signals_handler ok hret signal s)) = curr_thread s"
    and "threads_table_size (res_state (thread_signals_handler ok hret signal s)) =
          threads_table_size s"
    by (rule handler_other_statics)+
next
  show "curr_thread (res_state (ut_spawn_thread k st gc fn ag s)) = curr_thread s"
    by (rule spawn_curr)
  show "curr_thread (res_state (ut_get_vtime tid s)) = curr_thread s"
    by (simp add: ut_get_vtime_def res_state_def split: sum.splits option.splits)
  show "curr_thread (res_state (release_memory s)) = curr_thread s"
    using release_memory_statics [of s] by (simp add: same_statics_def)
  show "curr_thread (res_state (ut_init k n p s)) =
       (if returned (ut_init k n p s) then 0 else curr_thread s)"
    by (rule init_curr)
qed

theorem C1_round_robin_witness:
  "alarm_pending (res_state (thread_signals_handler True True SIGALRM full2)) = QUANTUM
   \<and> curr_thread (res_state (thread_signals_handler True True SIGALRM full2)) = 1
   \<and> returned (thread_signals_handler True True SIGALRM full2)
   \<and> curr_thread (res_state (thread_signals_handler True True SIGVTALRM full2)) = 0
   \<and> curr_thread (res_state (thread_signals_handler True True SIGALRM two_of_three)) = 1"
proof -
  have a: "curr_thread full2 = 0" "threads_table_size full2 = 2"
    "read_slot 0 full2 = Inr \<lparr>uc_mcontext = Some (Entry 7 0), uc_link = Some UcOut,
       ss_sp = Some 200, ss_size = Some 8192, vtime = Some 0, func = Some 7, arg = Some 0\<rparr>"
    "read_slot 1 full2 = Inr \<lparr>uc_mcontext = Some (Entry 8 1), uc_link = Some UcOut,
       ss_sp = Some 300, ss_size = Some 8192, vtime = Some 0, func = Some 8, arg = Some 1\<rparr>"
    by (simp_all add: full2_eq read_slot_def table_slots_def)
  have b: "curr_thread two_of_three = 0" "threads_table_size two_of_three = 3"
    by (simp_all add: two_of_three_def) (simp_all add: ev)
  have c: "SIGVTALRM \<noteq> SIGALRM" by (simp add: SIGVTALRM_def SIGALRM_def)
  show ?thesis
    using C1_round_robin [where s = full2 and ok = True and hret = True
        and signal = SIGVTALRM]
      C1_round_robin [where s = two_of_three and ok = True and hret = True
        and signal = SIGVTALRM] a b c
    by simp
qed

subsection \<open>Termination request\<close>

text \<open>
  With every slot spawned the teardown is as intended: on \<open>SIGINT\<close> the handler
  cancels the alarm, frees both stacks and then the table, each once, and returns.
\<close>

lemma teardown_full2:
  "returned (thread_signals_handler True True SIGINT full2)
   \<and> trace (res_state (thread_signals_handler True True SIGINT full2)) =
       [EvAlarm 0, EvFree 200, EvFree 300, EvFree 100]"
  by (simp add: full2_eq) (simp add: ev loop_ev)

text \<open>
  The defect behind claim C8: \<open>release_memory\<close> runs its loop over all
  \<open>threads_table_size\<close> slots, not over the \<open>next_position\<close> spawned ones. With two
  of three slots spawned, \<open>SIGINT\<close> frees the two stacks and then passes the
  never-written \<open>ss_sp\<close> of slot 2 to \<open>free\<close>; the table itself is not freed.
\<close>

theorem C8_unspawned_slot_freed:
  "next_position two_of_three = 2 \<and> threads_table_size two_of_three = 3
   \<and> res_fault (thread_signals_handler True True SIGINT two_of_three) = Some (UninitRead 2)
   \<and> trace (res_state (thread_signals_handler True True SIGINT two_of_three)) =
       [EvAlarm 0, EvFree 200, EvFree 300]"
  by (simp add: two_of_three_def) (simp add: ev loop_ev)

subsection \<open>Virtual-clock ticks\<close>

lemma tick_single:
  assumes "table_slots s = Inr sl" "0 \<le> curr_thread s" "curr_thread s < int (length sl)"
    "vtime (sl ! nat (curr_thread s)) = Some v"
  shows "\<exists>s'. thread_signals_handler ok hret SIGVTALRM s = Inr ((), s')
     \<and> g_vtime s' = g_vtime s + INTERVAL_MICRO
     \<and> table_slots s' = Inr (sl[nat (curr_thread s) :=
          (sl ! nat (curr_thread s))\<lparr>vtime := Some (v + INTERVAL_MICRO)\<rparr>])
     \<and> curr_thread s' = curr_thread s \<and> threads_table_size s' = threads_table_size s
     \<and> next_position s' = next_position s \<and> trace s' = trace s
     \<and> alarm_pending s' = alarm_pending s"
proof -
  define s1 where "s1 = s\<lparr>g_vtime := g_vtime s + INTERVAL_MICRO\<rparr>"
  have t1: "table_slots s1 = Inr sl"
    using assms(1) table_slots_cong [of s1 s] by (simp add: s1_def)
  have r1: "read_slot (curr_thread s) s1 = Inr (sl ! nat (curr_thread s))"
    using t1 assms(2,3) by (simp add: read_slot_def)
  have f1: "curr_thread s1 = curr_thread s" by (simp add: s1_def)
  have ne: "SIGVTALRM \<noteq> SIGALRM" by (simp add: SIGVTALRM_def SIGALRM_def)
  have h: "thread_signals_handler ok hret SIGVTALRM s = Inr ((),
      write_slot (curr_thread s)
        ((sl ! nat (curr_thread s))\<lparr>vtime := Some (v + INTERVAL_MICRO)\<rparr>) s1)"
    using ne r1 assms(4)
    by (simp add: thread_signals_handler_def Let_def s1_def [symmetric] f1)
  show ?thesis
    using table_slots_write [OF t1]
    by (simp add: h write_slot_fields) (simp add: s1_def)
qed

lemma vt_ticks_closed:
  assumes "table_slots s = Inr sl" "0 \<le> curr_thread s" "curr_thread s < int (length sl)"
    "vtime (sl ! nat (curr_thread s)) = Some v"
  shows "\<exists>s'. vt_ticks n s = Inr ((), s')
     \<and> g_vtime s' = g_vtime s + of_nat n * INTERVAL_MICRO
     \<and> table_slots s' = Inr (sl[nat (curr_thread s) :=
          (sl ! nat (curr_thread s))\<lparr>vtime := Some (v + of_nat n * INTERVAL_MICRO)\<rparr>])
     \<and> curr_thread s' = curr_thread s \<and> threads_table_size s' = threads_table_size s
     \<and> next_position s' = next_position s \<and> trace s' = trace s
     \<and> alarm_pending s' = alarm_pending s"
  using assms
proof (induction n arbitrary: s sl v)
  case 0
  have e: "(sl ! nat (curr_thread s))\<lparr>vtime := Some v\<rparr> = sl ! nat (curr_thread s)"
    by (simp add: "0.prems"(4) [symmetric])
  show ?case using "0.prems"(1) by (simp add: e)
next
  case (Suc n)
  let ?c = "nat (curr_thread s)"
  from tick_single [OF Suc.prems, of True True] obtain s1 where
    h: "thread_signals_handler True True SIGVTALRM s = Inr ((), s1)" and
    g: "g_vtime s1 = g_vtime s + INTERVAL_MICRO" and
    tb: "table_slots s1 = Inr (sl[?c := (sl ! ?c)\<lparr>vtime := Some (v + INTERVAL_MICRO)\<rparr>])" and
    f: "curr_thread s1 = curr_thread s" "threads_table_size s1 = threads_table_size s"
      "next_position s1 = next_position s" "trace s1 = trace s"
      "alarm_pending s1 = alarm_pending s"
    by blast
  have lt: "?c < length sl" using Suc.prems(2,3) by simp
  have p2: "0 \<le> curr_thread s1" using Suc.prems(2) f by simp
  have p3: "curr_thread s1 < int (length (sl[?c := (sl ! ?c)\<lparr>vtime := Some (v + INTERVAL_MICRO)\<rparr>]))"
    using Suc.prems(3) f by simp
  have p4: "vtime (sl[?c := (sl ! ?c)\<lparr>vtime := Some (v + INTERVAL_MICRO)\<rparr>] ! nat (curr_thread s1))
      = Some (v + INTERVAL_MICRO)"
    using lt by (simp add: f)
  from Suc.IH [OF tb p2 p3 p4] obtain s' where
    a: "vt_ticks n s1 = Inr ((), s')" and
    b: "g_vtime s' = g_vtime s1 + of_nat n * INTERVAL_MICRO" and
    c: "table_slots s' = Inr ((sl[?c := (sl ! ?c)\<lparr>vtime := Some (v + INTERVAL_MICRO)\<rparr>])
        [nat (curr_thread s1) :=
          ((sl[?c := (sl ! ?c)\<lparr>vtime := Some (v + INTERVAL_MICRO)\<rparr>]) ! nat (curr_thread s1))
            \<lparr>vtime := Some (v + INTERVAL_MICRO + of_nat n * INTERVAL_MICRO)\<rparr>])" and
    d: "curr_thread s' = curr_thread s1" "threads_table_size s' = threads_table_size s1"
      "next_position s' = next_position s1" "trace s' = trace s1"
      "alarm_pending s' = alarm_pending s1"
    by blast
  have ar: "v + INTERVAL_MICRO + of_nat n * INTERVAL_MICRO = v + of_nat (Suc n) * INTERVAL_MICRO"
    by (simp add: algebra_simps)
  have ar2: "g_vtime s + INTERVAL_MICRO + of_nat n * INTERVAL_MICRO =
      g_vtime s + of_nat (Suc n) * INTERVAL_MICRO"
    by (simp add: algebra_simps)
  show ?case
    apply (rule exI [of _ s'])
    using a b c d lt by (simp add: h g f ar ar2 del: of_nat_Suc)
qed

lemma slots_vtime_zero:
  "(\<forall>i < length sl. vtime (sl ! i) = Some 0) \<Longrightarrow> slots_vtime sl = Some 0"
proof (induction sl)
  case Nil
  then show ?case by simp
next
  case (Cons x xs)
  then have "vtime x = Some 0" by auto
  moreover have "\<forall>i < length xs. vtime (xs ! i) = Some 0" using Cons.prems by auto
  ultimately show ?case using Cons.IH by simp
qed

lemma slots_vtime_update:
  "slots_vtime sl = Some t \<Longrightarrow> i < length sl \<Longrightarrow> vtime (sl ! i) = Some v \<Longrightarrow>
     slots_vtime (sl[i := (sl ! i)\<lparr>vtime := Some (v + d)\<rparr>]) = Some (t + d)"
proof (induction sl arbitrary: i t)
  case Nil
  then show ?case by simp
next
  case (Cons x xs)
  show ?case
  proof (cases i)
    case 0
    with Cons.prems show ?thesis
      by (auto split: option.splits)
  next
    case (Suc j)
    with Cons.prems obtain w t1 where w: "vtime x = Some w" "slots_vtime xs = Some t1"
      "t = w + t1"
      by (auto split: option.splits)
    from Cons.IH [OF w(2), of j] Cons.prems Suc
    have "slots_vtime (xs[j := (xs ! j)\<lparr>vtime := Some (v + d)\<rparr>]) = Some (t1 + d)" by simp
    with w Suc show ?thesis by simp
  qed
qed

lemma init_table:
  assumes "ut_init k n p s = Inr (0, s')" "SYS_ERR k < 0"
  shows "table_slots s' = Inr (replicate (nat (threads_table_size s')) uninit_slot)"
    "g_vtime s' = g_vtime s"
proof -
  from ut_init_fields(5) [OF assms(1)] assms(2) have p: "p \<noteq> 0" by (auto split: if_splits)
  from assms(1) p obtain q s1 where
    r: "(threads_table s = 0 \<and> s1 = s) \<or> release_memory s = Inr (q, s1)" and
    e: "s' = (malloc p (Table (replicate
      (nat (if n > MAX_TAB_SIZE k \<or> n < MIN_TAB_SIZE k then MAX_TAB_SIZE k else n))
      uninit_slot))
      (s1\<lparr>threads_table_size := (if n > MAX_TAB_SIZE k \<or> n < MIN_TAB_SIZE k
            then MAX_TAB_SIZE k else n), next_position := 0, curr_thread := 0\<rparr>))
      \<lparr>threads_table := p\<rparr>"
    by (auto simp: ut_init_def Let_def split: sum.splits prod.splits if_splits)
  have g: "g_vtime s1 = g_vtime s"
    using release_memory_statics [of s] r
    by (auto simp: same_statics_def res_state_def)
  show "table_slots s' = Inr (replicate (nat (threads_table_size s')) uninit_slot)"
    using p by (simp add: e table_slots_def malloc_def)
  show "g_vtime s' = g_vtime s"
    using p g by (simp add: e malloc_def)
qed

lemma spawn_seq_inv:
  assumes "spawn_seq k rs s = Inr (ts, s')" "\<forall>t\<in>set ts. 0 \<le> t" "SYS_ERR k < 0"
    "TAB_FULL k < 0" "table_slots s = Inr sl" "0 \<le> next_position s"
    "\<forall>i < nat (next_position s). i < length sl \<longrightarrow> vtime (sl ! i) = Some 0"
  shows "\<exists>sl'. table_slots s' = Inr sl' \<and> length sl' = length sl
     \<and> (\<forall>i < nat (next_position s'). i < length sl' \<longrightarrow> vtime (sl' ! i) = Some 0)
     \<and> g_vtime s' = g_vtime s \<and> curr_thread s' = curr_thread s"
  using assms
proof (induction rs arbitrary: s ts sl)
  case Nil
  then show ?case by simp
next
  case (Cons rq rs)
  obtain st gc fn ag where rq: "rq = (st, gc, fn, ag)" by (cases rq) auto
  from Cons.prems(1) obtain t s1 ts1 where
    a: "ut_spawn_thread k st gc fn ag s = Inr (t, s1)" and
    b: "spawn_seq k rs s1 = Inr (ts1, s')" and c: "ts = t # ts1"
    by (auto simp: rq split: sum.splits prod.splits)
  from Cons.prems(2) c have t0: "0 \<le> t" and ts0: "\<forall>t\<in>set ts1. 0 \<le> t" by auto
  from spawn_success [OF a t0 Cons.prems(3,4)] Cons.prems(5) obtain x where
    np: "next_position s < int (length sl)" "next_position s1 = next_position s + 1" and
    tb: "table_slots s1 = Inr (sl[nat (next_position s) := x])" and
    vx: "vtime x = Some 0" and
    f: "g_vtime s1 = g_vtime s" "curr_thread s1 = curr_thread s"
    by auto
  have p6: "0 \<le> next_position s1" using np Cons.prems(6) by simp
  have p7: "\<forall>i < nat (next_position s1). i < length (sl[nat (next_position s) := x]) \<longrightarrow>
      vtime (sl[nat (next_position s) := x] ! i) = Some 0"
  proof (intro allI impI)
    fix i assume i: "i < nat (next_position s1)" "i < length (sl[nat (next_position s) := x])"
    show "vtime (sl[nat (next_position s) := x] ! i) = Some 0"
    proof (cases "i = nat (next_position s)")
      case True
      with i vx show ?thesis by simp
    next
      case False
      with i np Cons.prems(6) have "i < nat (next_position s)" by simp
      with Cons.prems(7) i False show ?thesis by simp
    qed
  qed
  from Cons.IH [OF b ts0 Cons.prems(3,4) tb p6 p7] f show ?case by simp
qed

lemma fresh_table:
  assumes "ut_consts_ok k" "ut_init k n p s0 = Inr (0, s1)" "spawn_seq k rs s1 = Inr (ts, s2)"
    "\<forall>t\<in>set ts. 0 \<le> t" "int (length rs) = threads_table_size s1"
  shows "\<exists>sl. table_slots s2 = Inr sl \<and> int (length sl) = threads_table_size s2
     \<and> 0 < threads_table_size s2 \<and> (\<forall>i < length sl. vtime (sl ! i) = Some 0)
     \<and> curr_thread s2 = 0 \<and> g_vtime s2 = g_vtime s0"
proof -
  from assms(1) have k: "SYS_ERR k < 0" "TAB_FULL k < 0" "0 < MIN_TAB_SIZE k"
    "MIN_TAB_SIZE k \<le> MAX_TAB_SIZE k"
    by (simp_all add: ut_consts_ok_def)
  note i = ut_init_fields [OF assms(2)]
  have sz: "0 < threads_table_size s1" using i(4) k by (auto split: if_splits)
  note tb = init_table [OF assms(2) k(1)]
  have np0: "0 \<le> next_position s1" using i(1) by simp
  have v0: "\<forall>i < nat (next_position s1).
      i < length (replicate (nat (threads_table_size s1)) uninit_slot) \<longrightarrow>
      vtime (replicate (nat (threads_table_size s1)) uninit_slot ! i) = Some 0"
    using i(1) by simp
  from spawn_seq_inv [OF assms(3,4) k(1,2) tb(1) np0 v0] obtain sl where
    a: "table_slots s2 = Inr sl" "length sl = nat (threads_table_size s1)"
      "\<forall>i < nat (next_position s2). i < length sl \<longrightarrow> vtime (sl ! i) = Some 0"
      "g_vtime s2 = g_vtime s1" "curr_thread s2 = curr_thread s1"
    by auto
  from spawn_seq_count [OF assms(3,4) k(1,2)] i(1) assms(5)
  have c: "next_position s2 = threads_table_size s1"
    "threads_table_size s2 = threads_table_size s1" by simp_all
  show ?thesis
    apply (rule exI [of _ sl])
    using a c sz i(2) tb(2) by simp
qed

lemma word_ticks_mono:
  assumes "m \<le> m'" "m' * 100 < 2 ^ 64"
  shows "(of_nat m * INTERVAL_MICRO :: ulong) \<le> of_nat m' * INTERVAL_MICRO"
proof -
  have b: "m * 100 < 2 ^ 64" using assms by simp
  have "take_bit 64 (m * 100) \<le> take_bit 64 (m' * 100)"
    using assms b by (simp add: take_bit_nat_eq_self)
  then have "(of_nat (m * 100) :: ulong) \<le> of_nat (m' * 100)"
    by (simp only: of_nat_word_less_eq_iff len_num1 len_bit0 len_of_numeral_defs)
      simp
  then show ?thesis
    by (simp add: INTERVAL_MICRO_def)
qed

lemma get_vtime_after_ticks:
  assumes "table_slots s = Inr sl" "int (length sl) = threads_table_size s"
    "\<forall>i < length sl. vtime (sl ! i) = Some 0" "0 \<le> curr_thread s"
    "curr_thread s < threads_table_size s"
  shows "res_value (ut_get_vtime tid (res_state (vt_ticks m s))) =
      Some (if tid = curr_thread s then of_nat m * INTERVAL_MICRO else 0)"
proof -
  let ?c = "nat (curr_thread s)"
  have v: "vtime (sl ! ?c) = Some 0" using assms by simp
  from vt_ticks_closed [OF assms(1,4) _ v, of m] assms(2,5) obtain s' where
    a: "vt_ticks m s = Inr ((), s')" and
    tb: "table_slots s' = Inr (sl[?c := (sl ! ?c)\<lparr>vtime := Some (0 + of_nat m * INTERVAL_MICRO)\<rparr>])"
    and sz: "threads_table_size s' = threads_table_size s"
    by auto
  have rs: "res_state (vt_ticks m s) = s'" by (simp add: a res_state_def)
  show ?thesis
  proof (cases "0 \<le> tid \<and> tid < threads_table_size s")
    case False
    with assms(4,5) show ?thesis
      by (auto simp: rs ut_get_vtime_def sz res_value_def)
  next
    case True
    then have lt: "nat tid < length sl" using assms(2) by linarith
    show ?thesis
    proof (cases "tid = curr_thread s")
      case True
      with \<open>0 \<le> tid \<and> tid < threads_table_size s\<close> lt assms(2) show ?thesis
        by (simp add: rs ut_get_vtime_def sz res_value_def read_slot_def tb)
    next
      case False
      with True assms(4) have "nat tid \<noteq> ?c" by linarith
      with True lt assms(2,3) False show ?thesis
        by (simp add: rs ut_get_vtime_def sz res_value_def read_slot_def tb)
    qed
  qed
qed

text \<open>
  Claim C2 as stated fails in two ways. The counters are \<open>unsigned long\<close>: on the
  fresh two-slot table the counter of thread 0 is 18446744073709551600 after
  184467440737095516 ticks and wraps around to 84 with the next tick, so it is not
  non-decreasing. And \<open>ut_init\<close> does not reset the accumulator: after one tick, a
  table initialised afresh and fully spawned has counters that sum to 0 while the
  accumulator is 100.
\<close>

theorem C2_wrap_and_reinit_counterexample:
  "res_value (ut_get_vtime 0 (res_state (vt_ticks 184467440737095516 full2))) =
     Some 18446744073709551600
   \<and> res_value (ut_get_vtime 0 (res_state (vt_ticks 184467440737095517 full2))) = Some 84
   \<and> next_position full2_again = threads_table_size full2_again
   \<and> table_vtime full2_again = Some 0
   \<and> g_vtime full2_again = 100"
proof -
  have a: "table_slots full2 = Inr
     [\<lparr>uc_mcontext = Some (Entry 7 0), uc_link = Some UcOut, ss_sp = Some 200,
        ss_size = Some 8192, vtime = Some 0, func = Some 7, arg = Some 0\<rparr>,
      \<lparr>uc_mcontext = Some (Entry 8 1), uc_link = Some UcOut, ss_sp = Some 300,
        ss_size = Some 8192, vtime = Some 0, func = Some 8, arg = Some 1\<rparr>]"
    by (simp add: full2_eq table_slots_def)
  have b: "threads_table_size full2 = 2" "curr_thread full2 = 0" by (simp_all add: full2_eq)
  have v: "res_value (ut_get_vtime 0 (res_state (vt_ticks m full2))) =
      Some (of_nat m * INTERVAL_MICRO)" for m
    using get_vtime_after_ticks [OF a, of 0 m] b by (simp add: less_Suc_eq)
  have c1: "res_value (ut_get_vtime 0 (res_state (vt_ticks 184467440737095516 full2))) =
     Some 18446744073709551600"
    by (simp add: v INTERVAL_MICRO_def)
  have c2: "res_value (ut_get_vtime 0 (res_state (vt_ticks 184467440737095517 full2))) =
     Some 84"
    by (simp add: v INTERVAL_MICRO_def)
  have c3: "next_position full2_again = threads_table_size full2_again
   \<and> table_vtime full2_again = Some 0 \<and> g_vtime full2_again = 100"
    by (simp add: full2_again_def full2_eq) (simp add: ev loop_ev table_vtime_def)
  from c1 c2 c3 show ?thesis by blast
qed

text \<open>
  Claim C2, as amended. A virtual-clock tick, in any state whose running slot has a
  counter, adds \<open>INTERVAL_MICRO\<close> to the accumulator and to the \<open>vtime\<close> of the slot
  at \<open>curr_thread\<close>, changes no other slot, and calls nothing (no context switch).
  Starting from a table initialised while the accumulator is still 0 (\<open>ut_init\<close> does
  not reset it) in which every slot has been spawned, any number of ticks in a row
  returns, the counters sum to the accumulator in \<open>unsigned long\<close> arithmetic, and
  as long as the ticks counted stay below \<open>2 ^ 64\<close> the accumulator and every
  counter read by \<open>ut_get_vtime\<close> are non-decreasing.
\<close>

theorem C2_virtual_time:
  assumes "ut_consts_ok k" "g_vtime s0 = 0" "ut_init k n p s0 = Inr (0, s1)"
    "spawn_seq k rs s1 = Inr (ts, s2)" "\<forall>t\<in>set ts. 0 \<le> t"
    "int (length rs) = threads_table_size s1"
  shows
    "(\<forall>u sl v. table_slots u = Inr sl \<and> 0 \<le> curr_thread u
         \<and> curr_thread u < int (length sl) \<and> vtime (sl ! nat (curr_thread u)) = Some v \<longrightarrow>
       (\<exists>u'. thread_signals_handler ok hret SIGVTALRM u = Inr ((), u')
          \<and> g_vtime u' = g_vtime u + INTERVAL_MICRO
          \<and> table_slots u' = Inr (sl[nat (curr_thread u) :=
               (sl ! nat (curr_thread u))\<lparr>vtime := Some (v + INTERVAL_MICRO)\<rparr>])
          \<and> curr_thread u' = curr_thread u \<and> trace u' = trace u))
     \<and> (\<exists>s3. vt_ticks m s2 = Inr ((), s3) \<and> table_vtime s3 = Some (g_vtime s3)
          \<and> g_vtime s3 = of_nat m * INTERVAL_MICRO
          \<and> curr_thread s3 = curr_thread s2 \<and> trace s3 = trace s2)
     \<and> (m \<le> m' \<and> m' * unat INTERVAL_MICRO < 2 ^ 64 \<longrightarrow>
          g_vtime (res_state (vt_ticks m s2)) \<le> g_vtime (res_state (vt_ticks m' s2))
          \<and> (\<forall>tid. \<exists>v v'.
                res_value (ut_get_vtime tid (res_state (vt_ticks m s2))) = Some v
              \<and> res_value (ut_get_vtime tid (res_state (vt_ticks m' s2))) = Some v'
              \<and> v \<le> v'))"
proof (intro conjI allI impI)
  fix u sl v
  assume "table_slots u = Inr sl \<and> 0 \<le> curr_thread u
         \<and> curr_thread u < int (length sl) \<and> vtime (sl ! nat (curr_thread u)) = Some v"
  then have h: "table_slots u = Inr sl" "0 \<le> curr_thread u"
    "curr_thread u < int (length sl)" "vtime (sl ! nat (curr_thread u)) = Some v"
    by simp_all
  from tick_single [OF h, of ok hret]
  show "\<exists>u'. thread_signals_handler ok hret SIGVTALRM u = Inr ((), u')
          \<and> g_vtime u' = g_vtime u + INTERVAL_MICRO
          \<and> table_slots u' = Inr (sl[nat (curr_thread u) :=
               (sl ! nat (curr_thread u))\<lparr>vtime := Some (v + INTERVAL_MICRO)\<rparr>])
          \<and> curr_thread u' = curr_thread u \<and> trace u' = trace u"
    by blast
next
  from fresh_table [OF assms(1,3,4,5,6)] assms(2) obtain sl where
    f: "table_slots s2 = Inr sl" "int (length sl) = threads_table_size s2"
      "0 < threads_table_size s2" "\<forall>i < length sl. vtime (sl ! i) = Some 0"
      "curr_thread s2 = 0" "g_vtime s2 = 0"
    by auto
  have l0: "0 < length sl" using f(2,3) by linarith
  have c: "0 \<le> curr_thread s2" "curr_thread s2 < int (length sl)"
    "vtime (sl ! nat (curr_thread s2)) = Some 0" "nat (curr_thread s2) < length sl"
    using f(4,5) l0 by simp_all
  from vt_ticks_closed [OF f(1) c(1,2,3), of m] obtain s3 where
    a: "vt_ticks m s2 = Inr ((), s3)"
      "g_vtime s3 = g_vtime s2 + of_nat m * INTERVAL_MICRO"
      "table_slots s3 = Inr (sl[nat (curr_thread s2) :=
          (sl ! nat (curr_thread s2))\<lparr>vtime := Some (0 + of_nat m * INTERVAL_MICRO)\<rparr>])"
      "curr_thread s3 = curr_thread s2" "trace s3 = trace s2"
    by blast
  have "slots_vtime (sl[nat (curr_thread s2) :=
          (sl ! nat (curr_thread s2))\<lparr>vtime := Some (0 + of_nat m * INTERVAL_MICRO)\<rparr>])
      = Some (0 + of_nat m * INTERVAL_MICRO)"
    by (rule slots_vtime_update [OF slots_vtime_zero [OF f(4)] c(4) c(3)])
  then have "table_vtime s3 = Some (g_vtime s3)"
    by (simp add: table_vtime_def a f(6))
  with a f(6)
  show "\<exists>s3. vt_ticks m s2 = Inr ((), s3) \<and> table_vtime s3 = Some (g_vtime s3)
          \<and> g_vtime s3 = of_nat m * INTERVAL_MICRO
          \<and> curr_thread s3 = curr_thread s2 \<and> trace s3 = trace s2"
    by simp
  assume mm: "m \<le> m' \<and> m' * unat INTERVAL_MICRO < 2 ^ 64"
  then have le: "(of_nat m * INTERVAL_MICRO :: ulong) \<le> of_nat m' * INTERVAL_MICRO"
    by (intro word_ticks_mono) (simp_all add: INTERVAL_MICRO_def)
  have g: "g_vtime (res_state (vt_ticks j s2)) = of_nat j * INTERVAL_MICRO" for j
    using vt_ticks_closed [OF f(1) c(1,2,3), of j] f(6) by (auto simp: res_state_def)
  show "g_vtime (res_state (vt_ticks m s2)) \<le> g_vtime (res_state (vt_ticks m' s2))"
    using le by (simp add: g)
  fix tid
  have r: "res_value (ut_get_vtime tid (res_state (vt_ticks j s2))) =
      Some (if tid = curr_thread s2 then of_nat j * INTERVAL_MICRO else 0)" for j
    using f by (intro get_vtime_after_ticks) simp_all
  show "\<exists>v v'. res_value (ut_get_vtime tid (res_state (vt_ticks m s2))) = Some v
              \<and> res_value (ut_get_vtime tid (res_state (vt_ticks m' s2))) = Some v'
              \<and> v \<le> v'"
    using le by (simp add: r)
qed

theorem C2_virtual_time_witness:
  "(\<exists>s3. vt_ticks 3 full2 = Inr ((), s3) \<and> table_vtime s3 = Some (g_vtime s3)
      \<and> g_vtime s3 = 300 \<and> trace s3 = trace full2)
   \<and> g_vtime (res_state (vt_ticks 3 full2)) \<le> g_vtime (res_state (vt_ticks 5 full2))"
proof -
  have ok: "ut_consts_ok ut_h" by (simp add: ut_consts_ok_def ut_h_def)
  have g0: "g_vtime initial_state = 0" by (simp add: initial_state_def)
  have ts: "\<forall>t\<in>set [0, 1::int]. 0 \<le> t" by simp
  have ln: "int (length [(200::nat, True, 7::nat, 0::int), (300, True, 8, 1)]) =
      threads_table_size empty2"
    by (simp add: empty2_eq)
  have bd: "(3::nat) \<le> 5 \<and> 5 * unat INTERVAL_MICRO < 2 ^ 64"
    by (simp add: INTERVAL_MICRO_def)
  note t = C2_virtual_time [OF ok g0 init2 spawn2 ts ln, where m = 3 and m' = 5]
  from t obtain s3 where a: "vt_ticks 3 full2 = Inr ((), s3)"
    "table_vtime s3 = Some (g_vtime s3)" "g_vtime s3 = of_nat 3 * INTERVAL_MICRO"
    "trace s3 = trace full2"
    by blast
  have b: "g_vtime s3 = 300" using a(3) by (simp add: INTERVAL_MICRO_def)
  from t bd have c:
    "g_vtime (res_state (vt_ticks 3 full2)) \<le> g_vtime (res_state (vt_ticks 5 full2))"
    by blast
  from a b c show ?thesis by blast
qed

end
